theory Spec2Isabelle
  imports Main
begin

section \<open>Exceptions and outcomes\<close>

text \<open>
  The exceptions that the modelled part of \<^verbatim>\<open>ophyd/v2/core.py\<close> raises or lets pass.
  \<open>NotConnected\<close> carries its \<^verbatim>\<open>lines\<close>. \<open>OtherException\<close> stands for any further
  subclass of Python's \<^verbatim>\<open>Exception\<close>, \<open>OtherBaseException\<close> for a \<^verbatim>\<open>BaseException\<close>
  that is neither an \<^verbatim>\<open>Exception\<close> nor \<^verbatim>\<open>CancelledError\<close> (\<^verbatim>\<open>KeyboardInterrupt\<close>,
  \<^verbatim>\<open>SystemExit\<close>).
\<close>

datatype exn =
    NotConnected "string list"
  | CancelledError
  | AssertionError
  | TypeError
  | ValueError
  | UnboundLocalError
  | InvalidStateError
  | TimeoutError
  | OtherException string
  | OtherBaseException string

datatype 'a outcome = Returns 'a | Raises exn

text \<open>\<^verbatim>\<open>isinstance(e, Exception)\<close>: since Python 3.8 \<^verbatim>\<open>CancelledError\<close> derives from
  \<^verbatim>\<open>BaseException\<close> directly.\<close>

fun is_Exception :: "exn \<Rightarrow> bool" where
  "is_Exception CancelledError = False"
| "is_Exception (OtherBaseException _) = False"
| "is_Exception _ = True"

section \<open>Dictionaries\<close>

text \<open>
  A Python \<^verbatim>\<open>dict\<close> keeps its keys in insertion order: it is an association list with
  distinct keys. \<^verbatim>\<open>d[k] = v\<close> replaces the value of a key that is present, in place, and
  appends a key that is absent.
\<close>

type_synonym ('k, 'v) dict = "('k \<times> 'v) list"

fun dict_setitem :: "'k \<Rightarrow> 'v \<Rightarrow> ('k, 'v) dict \<Rightarrow> ('k, 'v) dict" where
  "dict_setitem k v [] = [(k, v)]"
| "dict_setitem k v ((k', v') # d) =
     (if k' = k then (k, v) # d else (k', v') # dict_setitem k v d)"

text \<open>\<^verbatim>\<open>ret.update(result)\<close>: every item of \<open>result\<close>, in its order, is stored in \<open>ret\<close>.\<close>

definition dict_update :: "('k, 'v) dict \<Rightarrow> ('k, 'v) dict \<Rightarrow> ('k, 'v) dict" where
  "dict_update ret result = fold (\<lambda>(k, v) acc. dict_setitem k v acc) result ret"

definition dict_values :: "('k, 'v) dict \<Rightarrow> 'v list" where
  "dict_values d = map snd d"

definition dict_keys :: "('k, 'v) dict \<Rightarrow> 'k list" where
  "dict_keys d = map fst d"

definition dict_get :: "('k, 'v) dict \<Rightarrow> 'k \<Rightarrow> 'v option" where
  "dict_get d k = map_of d k"

section \<open>Composite readable: \<^verbatim>\<open>_ReadableRenamer\<close>, \<^verbatim>\<open>_UncachedSignal\<close>, \<^verbatim>\<open>StandardReadable\<close>\<close>

text \<open>
  The read side of the classes. \<^verbatim>\<open>AsyncReadable\<close> and \<^verbatim>\<open>SignalR\<close> are abstract in the
  source: an instance is given by what its coroutines return. \<open>'r\<close> is the type of a
  \<^verbatim>\<open>Reading\<close>, \<open>'d\<close> of a \<^verbatim>\<open>Descriptor\<close>.
\<close>

record ('r, 'd) async_readable =
  readable_read :: "(string, 'r) dict"
  readable_describe :: "(string, 'd) dict"

record ('r, 'd) signal_r =
  signal_name :: string
  signal_read :: "bool option \<Rightarrow> (string, 'r) dict"
  signal_describe :: "(string, 'd) dict"

text \<open>
  \<^verbatim>\<open>_ReadableRenamer._rename\<close>:
  \<^verbatim>\<open>return {self.device.name: v for v in d.values()}\<close>.
  The comprehension stores every value of \<open>d\<close>, in order, under the one key.
\<close>

definition ReadableRenamer_rename :: "string \<Rightarrow> (string, 'a) dict \<Rightarrow> (string, 'a) dict" where
  "ReadableRenamer_rename device_name d =
     fold (\<lambda>v acc. dict_setitem device_name v acc) (dict_values d) []"

text \<open>
  The members of \<^verbatim>\<open>StandardReadable._read_signals\<close>: a readable passed in \<^verbatim>\<open>read\<close>, a
  signal of \<^verbatim>\<open>read_uncached\<close> wrapped in \<^verbatim>\<open>_UncachedSignal\<close>, or the primary wrapped in
  \<^verbatim>\<open>_ReadableRenamer(primary, self)\<close>. The renamer's \<^verbatim>\<open>device\<close> is the composite
  itself, so its name is read from the composite when \<^verbatim>\<open>read\<close> runs.
\<close>

datatype ('r, 'd) read_signal =
    Plain "('r, 'd) async_readable"
  | UncachedSignal "('r, 'd) signal_r"
  | ReadableRenamer "('r, 'd) signal_r"

fun read_signal_read :: "string \<Rightarrow> ('r, 'd) read_signal \<Rightarrow> (string, 'r) dict" where
  "read_signal_read device_name (Plain a) = readable_read a"
| "read_signal_read device_name (UncachedSignal s) = signal_read s (Some False)"
| "read_signal_read device_name (ReadableRenamer s) =
     ReadableRenamer_rename device_name (signal_read s None)"

fun read_signal_describe :: "string \<Rightarrow> ('r, 'd) read_signal \<Rightarrow> (string, 'd) dict" where
  "read_signal_describe device_name (Plain a) = readable_describe a"
| "read_signal_describe device_name (UncachedSignal s) = signal_describe s"
| "read_signal_describe device_name (ReadableRenamer s) =
     ReadableRenamer_rename device_name (signal_describe s)"

text \<open>
  \<^verbatim>\<open>merge_gathered_dicts\<close>: \<^verbatim>\<open>asyncio.gather\<close> returns the results in the order of the
  coroutines it was given; the loop updates \<^verbatim>\<open>ret\<close>, initially empty, with each.
\<close>

definition merge_gathered_dicts :: "('k, 'v) dict list \<Rightarrow> ('k, 'v) dict" where
  "merge_gathered_dicts results = fold (\<lambda>result ret. dict_update ret result) results []"

record ('r, 'd) standard_readable =
  init_prefix :: string
  read_signals :: "('r, 'd) read_signal list"
  conf_signals :: "('r, 'd) async_readable list"
  staged :: bool
  name :: string

text \<open>The guard of \<^verbatim>\<open>StandardReadable.set_name\<close> on the composite's own name:
  \<^verbatim>\<open>if name and not self._name: self._name = name\<close>.\<close>

definition set_own_name :: "string \<Rightarrow> string \<Rightarrow> string" where
  "set_own_name current new_name = (if new_name \<noteq> [] \<and> current = [] then new_name else current)"

text \<open>\<^verbatim>\<open>StandardReadable.__init__\<close>; the class attribute \<^verbatim>\<open>_name = ""\<close> is the name
  that \<^verbatim>\<open>set_name\<close> finds.\<close>

definition StandardReadable_init ::
  "string \<Rightarrow> string \<Rightarrow> ('r, 'd) signal_r option \<Rightarrow> ('r, 'd) async_readable list \<Rightarrow>
   ('r, 'd) signal_r list \<Rightarrow> ('r, 'd) async_readable list \<Rightarrow> ('r, 'd) standard_readable" where
  "StandardReadable_init prefix nm primary rd read_uncached config =
     (let rs = map Plain rd @ map UncachedSignal read_uncached;
          rs' = (case primary of None \<Rightarrow> rs | Some p \<Rightarrow> [ReadableRenamer p] @ rs)
      in \<lparr> init_prefix = prefix, read_signals = rs', conf_signals = config,
           staged = False, name = set_own_name [] nm \<rparr>)"

definition StandardReadable_read :: "('r, 'd) standard_readable \<Rightarrow> (string, 'r) dict" where
  "StandardReadable_read self =
     merge_gathered_dicts (map (read_signal_read (name self)) (read_signals self))"

definition StandardReadable_describe :: "('r, 'd) standard_readable \<Rightarrow> (string, 'd) dict" where
  "StandardReadable_describe self =
     merge_gathered_dicts (map (read_signal_describe (name self)) (read_signals self))"

section \<open>Tasks and \<^verbatim>\<open>AsyncStatus\<close>\<close>

text \<open>
  An \<^verbatim>\<open>asyncio.Task\<close> is pending, finished with a result, finished with an exception,
  or cancelled. \<^verbatim>\<open>done()\<close> holds in the last three states, \<^verbatim>\<open>cancelled()\<close> in the
  last; \<^verbatim>\<open>result()\<close> returns the result, re-raises the exception, raises
  \<^verbatim>\<open>CancelledError\<close> for a cancelled task and \<^verbatim>\<open>InvalidStateError\<close> for a pending one.
  A coroutine that ends by raising \<^verbatim>\<open>CancelledError\<close> leaves its task cancelled, so
  the exception of a finished task is never \<^verbatim>\<open>CancelledError\<close>.
\<close>

datatype 'a task = TaskPending | TaskResult 'a | TaskException exn | TaskCancelled

fun Task_done :: "'a task \<Rightarrow> bool" where
  "Task_done TaskPending = False"
| "Task_done _ = True"

fun Task_cancelled :: "'a task \<Rightarrow> bool" where
  "Task_cancelled TaskCancelled = True"
| "Task_cancelled _ = False"

fun Task_result :: "'a task \<Rightarrow> 'a outcome" where
  "Task_result TaskPending = Raises InvalidStateError"
| "Task_result (TaskResult v) = Returns v"
| "Task_result (TaskException e) = Raises e"
| "Task_result TaskCancelled = Raises CancelledError"

text \<open>
  A callback is an opaque function of the status: it has an identity, and calling it either
  returns or raises.
\<close>

record callback =
  cb_id :: nat
  cb_outcome :: "unit outcome"

text \<open>
  \<^verbatim>\<open>AsyncStatus\<close>: the fields \<^verbatim>\<open>task\<close>, \<^verbatim>\<open>_callbacks\<close> and \<^verbatim>\<open>_watchers\<close>. The field
  \<open>called\<close> is not a Python attribute: it records, in order, every call
  \<^verbatim>\<open>callback(self)\<close> that has been made.
\<close>

record 'a async_status =
  task :: "'a task"
  callbacks :: "callback list"
  watchers :: "nat list option"
  called :: "callback list"

definition AsyncStatus_init :: "'a task \<Rightarrow> nat list option \<Rightarrow> 'a async_status" where
  "AsyncStatus_init t ws = \<lparr> task = t, callbacks = [], watchers = ws, called = [] \<rparr>"

definition AsyncStatus_done :: "'a async_status \<Rightarrow> bool" where
  "AsyncStatus_done self = Task_done (task self)"

text \<open>\<^verbatim>\<open>add_callback\<close>: an exception of a callback that is called at once reaches the
  caller.\<close>

definition add_callback :: "'a async_status \<Rightarrow> callback \<Rightarrow> unit outcome \<times> 'a async_status" where
  "add_callback self cb =
     (if AsyncStatus_done self
      then (cb_outcome cb, self\<lparr>called := called self @ [cb]\<rparr>)
      else (Returns (), self\<lparr>callbacks := callbacks self @ [cb]\<rparr>))"

text \<open>The loop \<^verbatim>\<open>for callback in self._callbacks: callback(self)\<close>: a callback that
  raises ends it.\<close>

fun call_each :: "callback list \<Rightarrow> 'a async_status \<Rightarrow> unit outcome \<times> 'a async_status" where
  "call_each [] self = (Returns (), self)"
| "call_each (cb # cbs) self =
     (let self' = self\<lparr>called := called self @ [cb]\<rparr>
      in case cb_outcome cb of
           Returns _ \<Rightarrow> call_each cbs self'
         | Raises e \<Rightarrow> (Raises e, self'))"

definition run_callbacks :: "'a async_status \<Rightarrow> 'a task \<Rightarrow> unit outcome \<times> 'a async_status" where
  "run_callbacks self t =
     (if \<not> Task_cancelled t then call_each (callbacks self) self else (Returns (), self))"

text \<open>\<^verbatim>\<open>success\<close>: the \<^verbatim>\<open>assert\<close> (assertions are on, as they are unless the
  interpreter is started with \<^verbatim>\<open>-O\<close>), then
  \<^verbatim>\<open>except (Exception, asyncio.CancelledError)\<close> around \<^verbatim>\<open>self.task.result()\<close>; any
  other exception passes through. The call of \<^verbatim>\<open>logging.exception\<close> changes nothing
  here.\<close>

definition AsyncStatus_success :: "'a async_status \<Rightarrow> bool outcome" where
  "AsyncStatus_success self =
     (if \<not> AsyncStatus_done self then Raises AssertionError
      else case Task_result (task self) of
             Returns _ \<Rightarrow> Returns True
           | Raises e \<Rightarrow>
               (if is_Exception e \<or> e = CancelledError then Returns False else Raises e))"

text \<open>
  The life of a status on the event loop. \<^verbatim>\<open>__init__\<close> registers \<^verbatim>\<open>_run_callbacks\<close> as
  the task's only done-callback; asyncio calls a done-callback once, with the task, on an
  iteration of the loop after the one in which the task became done. So a status sees, in
  this order: the callbacks added while the task is pending (\<open>early\<close>), the task reaching
  its terminal state (\<open>final\<close>), the callbacks added before the loop has run
  \<^verbatim>\<open>_run_callbacks\<close> (\<open>window\<close>), that call, and the callbacks added afterwards
  (\<open>late\<close>). Each \<^verbatim>\<open>add_callback\<close> is a call of its own, whatever the one before did.
\<close>

definition add_callbacks :: "callback list \<Rightarrow> 'a async_status \<Rightarrow> 'a async_status" where
  "add_callbacks cbs self = fold (\<lambda>cb s. snd (add_callback s cb)) cbs self"

definition task_finishes :: "'a task \<Rightarrow> 'a async_status \<Rightarrow> 'a async_status" where
  "task_finishes final self = self\<lparr>task := final\<rparr>"

definition lifecycle ::
  "callback list \<Rightarrow> 'a task \<Rightarrow> callback list \<Rightarrow> callback list \<Rightarrow> 'a async_status" where
  "lifecycle early final window late =
     (let s1 = add_callbacks early (AsyncStatus_init TaskPending None);
          s2 = add_callbacks window (task_finishes final s1);
          s3 = snd (run_callbacks s2 (task s2))
      in add_callbacks late s3)"

text \<open>
  What the loop of \<^verbatim>\<open>_run_callbacks\<close> gets to call: the stored callbacks in their
  order, up to and including the first one that raises.
\<close>

fun upto_first_raiser :: "callback list \<Rightarrow> callback list" where
  "upto_first_raiser [] = []"
| "upto_first_raiser (cb # cbs) =
     (case cb_outcome cb of
        Returns _ \<Rightarrow> cb # upto_first_raiser cbs
      | Raises e \<Rightarrow> [cb])"

section \<open>Naming devices\<close>

text \<open>
  A device for the purpose of naming: a \<^verbatim>\<open>Signal\<close> with its \<^verbatim>\<open>_name\<close>, or a
  \<^verbatim>\<open>StandardReadable\<close> with its \<^verbatim>\<open>_name\<close> and the entries of its \<^verbatim>\<open>__dict__\<close> whose
  value is a \<^verbatim>\<open>Device\<close>, in insertion order. The back-reference \<^verbatim>\<open>parent\<close> is the
  position in this tree.
\<close>

datatype device =
    SignalDevice string
  | ReadableDevice string "(string \<times> device) list"

fun device_name :: "device \<Rightarrow> string" where
  "device_name (SignalDevice n) = n"
| "device_name (ReadableDevice n attrs) = n"

text \<open>\<^verbatim>\<open>attr_name.rstrip('_')\<close>\<close>

definition rstrip_underscore :: "string \<Rightarrow> string" where
  "rstrip_underscore s = rev (dropWhile (\<lambda>c. c = CHR ''_'') (rev s))"

text \<open>
  \<^verbatim>\<open>set_name\<close>, dispatched on the class of the device: \<^verbatim>\<open>Signal.set_name\<close> is
  \<^verbatim>\<open>self._name = name\<close>; \<^verbatim>\<open>StandardReadable.set_name\<close> has the guard
  \<^verbatim>\<open>if name and not self._name\<close> and names each child
  \<^verbatim>\<open>f"{name}-{attr_name.rstrip('_')}"\<close>.
\<close>

fun set_name :: "device \<Rightarrow> string \<Rightarrow> device" where
  "set_name (SignalDevice n) new_name = SignalDevice new_name"
| "set_name (ReadableDevice n attrs) new_name =
     (if new_name \<noteq> [] \<and> n = []
      then ReadableDevice new_name
             (map (\<lambda>e. (fst e, set_name (snd e) (new_name @ ''-'' @ rstrip_underscore (fst e))))
                attrs)
      else ReadableDevice n attrs)"

section \<open>The connection orchestrator\<close>

text \<open>
  A connect operation that \<^verbatim>\<open>wait_for_connection\<close> has wrapped in a task, as the event
  loop sees it: \<open>completes_at\<close> is the tick of the loop at which the operation, left
  alone, is done (\<open>None\<close>: it never is) and \<open>completion\<close> how it is done then;
  \<open>on_cancel\<close> is how its task ends once \<^verbatim>\<open>cancel()\<close> has reached it while it was
  pending: with \<^verbatim>\<open>CancelledError\<close>, with the exception the operation raises instead, by
  returning, or never (\<open>None\<close>).
\<close>

record connect_op =
  completes_at :: "nat option"
  completion :: "unit outcome"
  on_cancel :: "unit outcome option"

text \<open>The operation is done by itself before the cancellation, if there is one, arrives.\<close>

definition done_by :: "nat option \<Rightarrow> connect_op \<Rightarrow> bool" where
  "done_by cancel_at op =
     (case completes_at op of
        None \<Rightarrow> False
      | Some t \<Rightarrow> (case cancel_at of None \<Rightarrow> True | Some c \<Rightarrow> t \<le> c))"

text \<open>
  \<^verbatim>\<open>await asyncio.wait(ts.values())\<close>, where the orchestrator's own task is cancelled at
  tick \<open>cancel_at\<close> (\<open>None\<close>: never). asyncio raises \<^verbatim>\<open>ValueError\<close> for an empty set of
  tasks before it waits at all; it returns when every task is done, whatever the tasks'
  outcomes, and raises \<^verbatim>\<open>CancelledError\<close> when the cancellation arrives first. The
  result \<open>None\<close> is a wait that never ends.
\<close>

definition asyncio_wait :: "(string \<times> connect_op) list \<Rightarrow> nat option \<Rightarrow> unit outcome option" where
  "asyncio_wait ts cancel_at =
     (if ts = [] then Some (Raises ValueError)
      else if list_all (\<lambda>(k, t). done_by cancel_at t) ts then Some (Returns ())
      else case cancel_at of None \<Rightarrow> None | Some c \<Rightarrow> Some (Raises CancelledError))"

text \<open>What \<^verbatim>\<open>await t\<close> gives after \<^verbatim>\<open>t.cancel()\<close>: a task that was done keeps its
  outcome, a pending one ends as \<open>on_cancel\<close> says.\<close>

definition await_cancelled :: "nat option \<Rightarrow> connect_op \<Rightarrow> unit outcome option" where
  "await_cancelled cancel_at t = (if done_by cancel_at t then Some (completion t) else on_cancel t)"

text \<open>
  The loop \<^verbatim>\<open>for k, t in ts.items()\<close> of the \<^verbatim>\<open>except\<close> branch and the final
  \<^verbatim>\<open>raise NotConnected(*lines)\<close>. Only \<^verbatim>\<open>NotConnected\<close> is caught: any other exception
  of \<^verbatim>\<open>await t\<close> leaves the function at once.
\<close>

fun collect_lines :: "(string \<times> unit outcome option) list \<Rightarrow> string list \<Rightarrow> unit outcome option" where
  "collect_lines [] lines = Some (Raises (NotConnected lines))"
| "collect_lines ((k, None) # rest) lines = None"
| "collect_lines ((k, Some (Returns u)) # rest) lines = collect_lines rest lines"
| "collect_lines ((k, Some (Raises (NotConnected e_lines))) # rest) lines =
     (if length e_lines = 1
      then collect_lines rest (lines @ [k @ '': '' @ e_lines ! 0])
      else collect_lines rest (lines @ [k @ '':''] @ map (\<lambda>line. ''  '' @ line) e_lines))"
| "collect_lines ((k, Some (Raises e)) # rest) lines = Some (Raises e)"

definition wait_for_connection :: "(string \<times> connect_op) list \<Rightarrow> nat option \<Rightarrow> unit outcome option" where
  "wait_for_connection coros cancel_at =
     (let ts = coros
      in case asyncio_wait ts cancel_at of
           Some (Raises CancelledError) \<Rightarrow>
             collect_lines (map (\<lambda>(k, t). (k, await_cancelled cancel_at t)) ts) []
         | r \<Rightarrow> r)"

text \<open>
  The report as the specification words it: in the children's order, one entry per child
  whose connect operation failed with \<^verbatim>\<open>NotConnected\<close>; a single-line failure gives the
  line \<^verbatim>\<open>name: message\<close>, any other the line \<^verbatim>\<open>name:\<close> followed by the child's lines,
  each indented by two spaces.
\<close>

definition report_entry :: "string \<Rightarrow> string list \<Rightarrow> string list" where
  "report_entry k ls =
     (case ls of [l] \<Rightarrow> [k @ '': '' @ l] | _ \<Rightarrow> (k @ '':'') # map (\<lambda>l. ''  '' @ l) ls)"

fun child_report :: "string \<times> unit outcome option \<Rightarrow> string list" where
  "child_report (k, Some (Raises (NotConnected ls))) = report_entry k ls"
| "child_report (k, _) = []"

definition failure_report :: "(string \<times> unit outcome option) list \<Rightarrow> string list" where
  "failure_report settled = concat (map child_report settled)"

fun connect_failed :: "unit outcome option \<Rightarrow> bool" where
  "connect_failed (Some (Raises (NotConnected ls))) = True"
| "connect_failed _ = False"

fun contributes_nothing :: "unit outcome option \<Rightarrow> bool" where
  "contributes_nothing (Some (Returns u)) = True"
| "contributes_nothing _ = False"

section \<open>Observing a signal\<close>

text \<open>
  Modelled from the spec: \<^verbatim>\<open>SignalR.subscribe_value\<close> and \<^verbatim>\<open>SignalR.clear_sub\<close> are
  abstract in \<^verbatim>\<open>core.py\<close>, implemented by the transport classes outside it. The
  specification gives a signal "a set of active value-change subscribers" that
  "is mutated only by subscribe/unsubscribe calls": subscribing registers the callback,
  clearing unregisters it.
\<close>

record 'cb signal_subs =
  subscribers :: "'cb set"

definition subscribe_value :: "'cb signal_subs \<Rightarrow> 'cb \<Rightarrow> 'cb signal_subs" where
  "subscribe_value sig f = sig\<lparr>subscribers := insert f (subscribers sig)\<rparr>"

definition clear_sub :: "'cb signal_subs \<Rightarrow> 'cb \<Rightarrow> 'cb signal_subs" where
  "clear_sub sig f = sig\<lparr>subscribers := subscribers sig - {f}\<rparr>"

datatype 'cb signal_call = SubscribeValue 'cb | ClearSub 'cb

text \<open>
  The asynchronous generator \<^verbatim>\<open>observe_value(signal)\<close>. It is created without running;
  it is suspended in \<^verbatim>\<open>await q.get()\<close> on an empty queue, or at the \<^verbatim>\<open>yield\<close> with a
  value handed to the consumer; or it is closed. \<open>signal_calls\<close> records the calls the
  generator makes on the signal, \<open>yielded\<close> the values it has handed out.
\<close>

datatype phase = Created | AwaitingGet | AtYield | Closed

record ('v, 'cb) observer =
  phase :: phase
  queue :: "'v list"
  yielded :: "'v list"
  signal :: "'cb signal_subs"
  signal_calls :: "'cb signal_call list"

definition observe_value :: "'cb signal_subs \<Rightarrow> ('v, 'cb) observer" where
  "observe_value sig =
     \<lparr> phase = Created, queue = [], yielded = [], signal = sig, signal_calls = [] \<rparr>"

text \<open>\<^verbatim>\<open>yield await q.get()\<close>: the oldest queued value is yielded; on an empty queue the
  generator waits.\<close>

definition yield_await_get :: "('v, 'cb) observer \<Rightarrow> ('v, 'cb) observer" where
  "yield_await_get g =
     (case queue g of
        [] \<Rightarrow> g\<lparr>phase := AwaitingGet\<rparr>
      | v # q \<Rightarrow> g\<lparr>phase := AtYield, queue := q, yielded := yielded g @ [v]\<rparr>)"

text \<open>The two lines before the \<^verbatim>\<open>try\<close>, then the first round of the loop. The
  callback \<open>cb\<close> is \<^verbatim>\<open>q.put_nowait\<close> of the queue created here.\<close>

definition start :: "'cb \<Rightarrow> ('v, 'cb) observer \<Rightarrow> ('v, 'cb) observer" where
  "start cb g =
     yield_await_get (g\<lparr>queue := [], signal := subscribe_value (signal g) cb,
                        signal_calls := signal_calls g @ [SubscribeValue cb]\<rparr>)"

text \<open>The \<^verbatim>\<open>finally\<close> block, after which the generator is finished.\<close>

definition run_finally :: "'cb \<Rightarrow> ('v, 'cb) observer \<Rightarrow> ('v, 'cb) observer" where
  "run_finally cb g =
     g\<lparr>phase := Closed, signal := clear_sub (signal g) cb,
       signal_calls := signal_calls g @ [ClearSub cb]\<rparr>"

text \<open>
  What can happen to the generator:
  \<^item> \<open>Next\<close>: the consumer pulls (\<^verbatim>\<open>__anext__\<close>). The first pull runs the body up to the
    first suspension; a later one resumes after the \<^verbatim>\<open>yield\<close>. A closed generator only
    raises \<^verbatim>\<open>StopAsyncIteration\<close>.
  \<^item> \<open>Notify v\<close>: the signal calls its subscribers with \<open>v\<close>; if the generator's callback
    is one of them, \<open>v\<close> is queued, and a generator waiting in \<^verbatim>\<open>q.get()\<close> goes on to
    yield.
  \<^item> \<open>Close\<close>: \<^verbatim>\<open>aclose()\<close>, called by the consumer or, for a generator the consumer has
    abandoned at the \<^verbatim>\<open>yield\<close> (it left its loop by \<^verbatim>\<open>break\<close>, \<^verbatim>\<open>return\<close> or an
    exception), by the event loop's finalizer hook: \<^verbatim>\<open>GeneratorExit\<close> is raised at the
    \<^verbatim>\<open>yield\<close>. A generator that never ran has no \<^verbatim>\<open>try\<close> to leave; one that is
    running inside a pull cannot be closed.
  \<^item> \<open>Throw e\<close>: an exception is raised inside the generator where it is suspended: the
    cancellation of the consumer while it waits in the pull, or \<^verbatim>\<open>athrow\<close>.
\<close>

datatype 'v event = Next | Notify 'v | Close | Throw exn

fun step :: "'cb \<Rightarrow> ('v, 'cb) observer \<Rightarrow> 'v event \<Rightarrow> ('v, 'cb) observer" where
  "step cb g Next =
     (case phase g of
        Created \<Rightarrow> start cb g
      | AtYield \<Rightarrow> yield_await_get g
      | AwaitingGet \<Rightarrow> g
      | Closed \<Rightarrow> g)"
| "step cb g (Notify v) =
     (if cb \<in> subscribers (signal g)
      then (let g' = g\<lparr>queue := queue g @ [v]\<rparr>
            in if phase g = AwaitingGet then yield_await_get g' else g')
      else g)"
| "step cb g Close =
     (case phase g of
        Created \<Rightarrow> g\<lparr>phase := Closed\<rparr>
      | AtYield \<Rightarrow> run_finally cb g
      | AwaitingGet \<Rightarrow> g
      | Closed \<Rightarrow> g)"
| "step cb g (Throw e) =
     (case phase g of
        Created \<Rightarrow> g\<lparr>phase := Closed\<rparr>
      | AtYield \<Rightarrow> run_finally cb g
      | AwaitingGet \<Rightarrow> run_finally cb g
      | Closed \<Rightarrow> g)"

definition run :: "'cb \<Rightarrow> ('v, 'cb) observer \<Rightarrow> 'v event list \<Rightarrow> ('v, 'cb) observer" where
  "run cb g evs = fold (\<lambda>ev g. step cb g ev) evs g"

text \<open>
  What holds of the generator for the callback \<open>cb\<close> on the signal \<open>sig\<close> in each phase:
  before it has run it has not touched the signal; while it is suspended it has subscribed
  once and not unsubscribed; once closed it has either never subscribed, or subscribed
  once and unsubscribed once.
\<close>

definition observer_inv :: "'cb \<Rightarrow> 'cb signal_subs \<Rightarrow> ('v, 'cb) observer \<Rightarrow> bool" where
  "observer_inv cb sig g =
     (case phase g of
        Created \<Rightarrow> signal_calls g = [] \<and> signal g = sig
      | AwaitingGet \<Rightarrow> signal_calls g = [SubscribeValue cb] \<and> signal g = subscribe_value sig cb
      | AtYield \<Rightarrow> signal_calls g = [SubscribeValue cb] \<and> signal g = subscribe_value sig cb
      | Closed \<Rightarrow>
          (signal_calls g = [] \<and> signal g = sig) \<or>
          (signal_calls g = [SubscribeValue cb, ClearSub cb] \<and>
           signal g = clear_sub (subscribe_value sig cb) cb))"

section \<open>Waiting for a value\<close>

text \<open>The argument \<^verbatim>\<open>match\<close> of \<^verbatim>\<open>wait_for_value\<close>: a callable, or a plain value.\<close>

datatype 'v match_arg = Callable "'v \<Rightarrow> bool" | NotCallable 'v

fun callable :: "'v match_arg \<Rightarrow> bool" where
  "callable (Callable f) = True"
| "callable (NotCallable x) = False"

text \<open>Reading a local variable of a Python function: a local that has not been assigned
  yet raises \<^verbatim>\<open>UnboundLocalError\<close>.\<close>

definition load_local :: "'a option \<Rightarrow> 'a outcome" where
  "load_local slot = (case slot of None \<Rightarrow> Raises UnboundLocalError | Some x \<Rightarrow> Returns x)"

text \<open>
  \<^verbatim>\<open>async for value in observe_value(signal): if match(value): return\<close>, over the values
  that the signal notifies in the time the wait is given. When they are used up and none
  matched, the loop is still waiting: the result is \<open>None\<close>.
\<close>

fun async_for_match :: "('v \<Rightarrow> bool) \<Rightarrow> 'v list \<Rightarrow> unit outcome option" where
  "async_for_match m [] = None"
| "async_for_match m (v # vs) = (if m v then Some (Returns ()) else async_for_match m vs)"

text \<open>
  The body of the nested coroutine \<^verbatim>\<open>_wait_for_value\<close>, from the state \<open>slot\<close> of its
  local variable \<^verbatim>\<open>match\<close>. The first statement reads the local in \<^verbatim>\<open>callable(match)\<close>;
  the nested \<^verbatim>\<open>def match(value, match=match)\<close> reads it again for the default and then
  assigns it.
\<close>

definition wait_for_value_body :: "'v match_arg option \<Rightarrow> 'v list \<Rightarrow> unit outcome option" where
  "wait_for_value_body slot vs =
     (case load_local slot of
        Raises e \<Rightarrow> Some (Raises e)
      | Returns m \<Rightarrow>
          (let slot' = (if \<not> callable m
                        then (case m of NotCallable x \<Rightarrow> Some (Callable (\<lambda>value. value = x))
                              | Callable f \<Rightarrow> Some m)
                        else slot)
           in case load_local slot' of
                Raises e \<Rightarrow> Some (Raises e)
              | Returns (Callable f) \<Rightarrow> async_for_match f vs
              | Returns (NotCallable x) \<Rightarrow> Some (Raises TypeError)))"

text \<open>
  \<^verbatim>\<open>_wait_for_value\<close> as it is called. The nested \<^verbatim>\<open>def match\<close> is an assignment to
  \<^verbatim>\<open>match\<close> in the body of \<^verbatim>\<open>_wait_for_value\<close>, so Python compiles \<^verbatim>\<open>match\<close> as a
  local variable of \<^verbatim>\<open>_wait_for_value\<close> throughout that body: the argument \<^verbatim>\<open>match\<close> of
  the enclosing \<^verbatim>\<open>wait_for_value\<close> is shadowed, and the local is unassigned when the
  coroutine starts.
\<close>

definition wait_for_value_inner :: "'v match_arg \<Rightarrow> 'v list \<Rightarrow> unit outcome option" where
  "wait_for_value_inner enclosing_match vs = wait_for_value_body None vs"

text \<open>
  \<^verbatim>\<open>await asyncio.wait_for(_wait_for_value(), timeout)\<close>, the timeout in
  milliseconds. A timeout that is not positive cancels the coroutine before it has run
  and raises \<^verbatim>\<open>TimeoutError\<close>. Otherwise the result is the coroutine's outcome if it has
  one; if it has none, \<^verbatim>\<open>TimeoutError\<close> when there is a timeout and an endless wait
  when there is none. \<open>vs\<close> are the values notified before the timeout expires.
\<close>

definition wait_for_value :: "'v match_arg \<Rightarrow> int option \<Rightarrow> 'v list \<Rightarrow> unit outcome option" where
  "wait_for_value match_arg timeout vs =
     (case timeout of
        None \<Rightarrow> wait_for_value_inner match_arg vs
      | Some t \<Rightarrow>
          (if t \<le> 0 then Some (Raises TimeoutError)
           else case wait_for_value_inner match_arg vs of
                  Some r \<Rightarrow> Some r
                | None \<Rightarrow> Some (Raises TimeoutError)))"

text \<open>What the docstring of \<^verbatim>\<open>wait_for_value\<close> and the specification describe: the test
  applied to each value.\<close>

fun matches :: "'v match_arg \<Rightarrow> 'v \<Rightarrow> bool" where
  "matches (Callable f) v = f v"
| "matches (NotCallable x) v = (v = x)"

section \<open>Hashing and comparing signals\<close>

text \<open>
  A Python object with its identity \<^verbatim>\<open>id(obj)\<close>, a non-negative integer; it is an instance
  of \<^verbatim>\<open>Signal\<close> or it is not.
\<close>

datatype pyobj = SignalObj nat | NonSignal nat

fun py_id :: "pyobj \<Rightarrow> nat" where
  "py_id (SignalObj i) = i"
| "py_id (NonSignal i) = i"

fun isinstance_Signal :: "pyobj \<Rightarrow> bool" where
  "isinstance_Signal (SignalObj i) = True"
| "isinstance_Signal (NonSignal i) = False"

datatype not_implemented = NotImplemented

text \<open>\<^verbatim>\<open>_fail\<close>, to which the class binds all six comparison methods:
  \<^verbatim>\<open>__lt__ = __le__ = __eq__ = __ge__ = __gt__ = __ne__ = _fail\<close>.\<close>

definition fail :: "pyobj \<Rightarrow> pyobj \<Rightarrow> not_implemented outcome" where
  "fail self other =
     (if isinstance_Signal other then Raises TypeError else Returns NotImplemented)"

datatype comparison = Lt | Le | Eq | Ge | Gt | Ne

definition Signal_compare :: "comparison \<Rightarrow> pyobj \<Rightarrow> pyobj \<Rightarrow> not_implemented outcome" where
  "Signal_compare op = fail"

text \<open>
  The built-in \<^verbatim>\<open>hash\<close> of a non-negative \<^verbatim>\<open>int\<close> on a 64-bit CPython: the value modulo
  the Mersenne prime \<open>2\<^sup>6\<^sup>1 - 1\<close>.
\<close>

definition hash_modulus :: nat where
  "hash_modulus = 2 ^ 61 - 1"

definition hash_int :: "nat \<Rightarrow> nat" where
  "hash_int n = n mod hash_modulus"

text \<open>\<^verbatim>\<open>Signal.__hash__\<close>: \<^verbatim>\<open>return hash(id(self))\<close>.\<close>

definition Signal_hash :: "pyobj \<Rightarrow> nat" where
  "Signal_hash self = hash_int (py_id self)"

text \<open>
  Adding a signal to a set of signals (or using it as a key of a dictionary), as CPython
  does it: the entries with another hash are passed over; an entry with the same hash is
  the key if it is the same object, and is otherwise compared with \<^verbatim>\<open>__eq__\<close>, whose
  exception leaves the insertion. A comparison that returns \<^verbatim>\<open>NotImplemented\<close> counts as
  unequal.
\<close>

fun set_add :: "pyobj list \<Rightarrow> pyobj \<Rightarrow> pyobj list outcome" where
  "set_add [] x = Returns [x]"
| "set_add (e # es) x =
     (if Signal_hash e = Signal_hash x
      then (if py_id e = py_id x then Returns (e # es)
            else case Signal_compare Eq e x of
                   Raises err \<Rightarrow> Raises err
                 | Returns NotImplemented \<Rightarrow>
                     (case set_add es x of Raises err \<Rightarrow> Raises err
                      | Returns es' \<Rightarrow> Returns (e # es')))
      else (case set_add es x of Raises err \<Rightarrow> Raises err
            | Returns es' \<Rightarrow> Returns (e # es')))"

text \<open>The set display \<^verbatim>\<open>{x1, ..., xn}\<close>: the elements are added from left to right.\<close>

fun set_add_all :: "pyobj list \<Rightarrow> pyobj list \<Rightarrow> pyobj list outcome" where
  "set_add_all s [] = Returns s"
| "set_add_all s (x # xs) =
     (case set_add s x of Raises err \<Rightarrow> Raises err | Returns s' \<Rightarrow> set_add_all s' xs)"

definition set_of_signals :: "pyobj list \<Rightarrow> pyobj list outcome" where
  "set_of_signals xs = set_add_all [] xs"

chapter \<open>Verified properties\<close>

section \<open>Dictionaries\<close>

lemma map_of_dict_setitem: "map_of (dict_setitem k v d) = (map_of d)(k \<mapsto> v)"
  by (induction d) (auto simp: fun_eq_iff)

lemma map_of_dict_update: "map_of (dict_update ret result) = map_of ret ++ map_of (rev result)"
  unfolding dict_update_def
proof (induction result arbitrary: ret)
  case Nil
  show ?case by simp
next
  case (Cons kv result)
  obtain k v where kv: "kv = (k, v)" by (cases kv)
  have "map_of (fold (\<lambda>(k, v). dict_setitem k v) result (dict_setitem k v ret))
        = map_of (dict_setitem k v ret) ++ map_of (rev result)"
    by (rule Cons.IH)
  also have "\<dots> = map_of ret ++ map_of (rev ((k, v) # result))"
    by (auto simp: map_of_dict_setitem fun_eq_iff map_add_def split: option.splits)
  finally show ?case by (simp add: kv)
qed

text \<open>The keys of a dictionary are distinct, so reading it from either end finds the same
  value.\<close>

lemma map_of_rev_distinct: "distinct (map fst d) \<Longrightarrow> map_of (rev d) = map_of d"
proof (induction d)
  case Nil
  show ?case by simp
next
  case (Cons a d)
  obtain k v where a: "a = (k, v)" by (cases a)
  from Cons.prems have nk: "map_of d k = None" and dd: "distinct (map fst d)"
    by (simp_all add: a map_of_eq_None_iff)
  have "map_of (rev (a # d)) = map_of [a] ++ map_of d"
    by (simp add: Cons.IH [OF dd])
  also have "\<dots> = map_of (a # d)"
  proof (rule ext)
    fix x
    show "(map_of [a] ++ map_of d) x = map_of (a # d) x"
      using nk by (cases "x = k") (simp_all add: a map_add_def split: option.splits)
  qed
  finally show ?case .
qed

lemma dict_get_dict_update:
  "distinct (dict_keys result) \<Longrightarrow>
   dict_get (dict_update ret result) k =
     (case dict_get result k of Some v \<Rightarrow> Some v | None \<Rightarrow> dict_get ret k)"
  by (simp add: dict_get_def dict_keys_def map_of_dict_update map_of_rev_distinct map_add_def
      split: option.splits)

section \<open>The renamed primary\<close>

lemma fold_setitem_one_key:
  "fold (\<lambda>v acc. dict_setitem n v acc) vs [(n, v0)] = [(n, last (v0 # vs))]"
  by (induction vs arbitrary: v0) auto

lemma rename_eq:
  "ReadableRenamer_rename n d = (if d = [] then [] else [(n, snd (last d))])"
proof (cases d)
  case Nil
  then show ?thesis by (simp add: ReadableRenamer_rename_def dict_values_def)
next
  case (Cons kv d')
  then show ?thesis
    by (simp add: ReadableRenamer_rename_def dict_values_def fold_setitem_one_key last_map)
qed

text \<open>
  Claim C9. Whatever dictionary the primary returns, \<^verbatim>\<open>_ReadableRenamer\<close> hands on at
  most one entry, for \<^verbatim>\<open>read\<close> and for \<^verbatim>\<open>describe\<close> alike: every key is replaced by
  the composite's name, so of several values only the last one survives and the others
  are dropped without notice; an empty dictionary stays empty.
\<close>

theorem rename_single_entry:
  "ReadableRenamer_rename n d = (if d = [] then [] else [(n, snd (last d))])
   \<and> length (ReadableRenamer_rename n d) \<le> 1
   \<and> (\<forall>kv \<in> set (ReadableRenamer_rename n d). fst kv = n)
   \<and> read_signal_read n (ReadableRenamer s) = ReadableRenamer_rename n (signal_read s None)
   \<and> read_signal_describe n (ReadableRenamer s) = ReadableRenamer_rename n (signal_describe s)"
  by (simp add: rename_eq)

theorem rename_single_entry_witness:
  "ReadableRenamer_rename ''m'' [(''m-a'', 1::nat), (''m-b'', 2), (''m-c'', 3)] = [(''m'', 3)]"
  using rename_single_entry [of "''m''" "[(''m-a'', 1::nat), (''m-b'', 2), (''m-c'', 3)]"]
  by simp

section \<open>Reading a composite\<close>

text \<open>
  Claim C8. A \<^verbatim>\<open>StandardReadable\<close> built with primary \<open>A\<close> and one read child \<open>B\<close> reads
  by merging, in construction order, the renamed reading of \<open>A\<close> and then the reading of
  \<open>B\<close>: a key of \<open>B\<close> has \<open>B\<close>'s value in the result (the later entry wins a collision),
  any other key has the value of the renamed primary. When \<open>A\<close> returns its single-item
  dictionary, the renamed reading is that reading under the composite's name, and the
  result holds it there unless \<open>B\<close> itself uses the composite's name as a key.
\<close>

theorem read_primary_and_child:
  fixes A :: "('r, 'd) signal_r" and B :: "('r, 'd) async_readable"
  assumes "distinct (dict_keys (readable_read B))"
  shows "let sr = StandardReadable_init prefix nm (Some A) [B] [] [];
             renamed = ReadableRenamer_rename (name sr) (signal_read A None)
         in name sr = nm
          \<and> StandardReadable_read sr = merge_gathered_dicts [renamed, readable_read B]
          \<and> (\<forall>k. dict_get (StandardReadable_read sr) k =
                (case dict_get (readable_read B) k of Some v \<Rightarrow> Some v
                 | None \<Rightarrow> dict_get renamed k))
          \<and> (\<forall>r. signal_read A None = [(signal_name A, r)] \<longrightarrow>
                renamed = [(nm, r)] \<and>
                (nm \<notin> set (dict_keys (readable_read B)) \<longrightarrow>
                   dict_get (StandardReadable_read sr) nm = Some r))"
proof -
  define sr where "sr = StandardReadable_init prefix nm (Some A) [B] [] []"
  define renamed where "renamed = ReadableRenamer_rename (name sr) (signal_read A None)"
  have n: "name sr = nm"
    by (simp add: sr_def StandardReadable_init_def set_own_name_def)
  have m: "StandardReadable_read sr = merge_gathered_dicts [renamed, readable_read B]"
    by (simp add: sr_def renamed_def StandardReadable_read_def StandardReadable_init_def)
  have e: "dict_update [] renamed = renamed"
    by (simp add: renamed_def rename_eq dict_update_def)
  have g: "dict_get (StandardReadable_read sr) k =
             (case dict_get (readable_read B) k of Some v \<Rightarrow> Some v
              | None \<Rightarrow> dict_get renamed k)" for k
    by (simp add: m merge_gathered_dicts_def e dict_get_dict_update [OF assms])
  have p: "renamed = [(nm, r)] \<and>
           (nm \<notin> set (dict_keys (readable_read B)) \<longrightarrow>
              dict_get (StandardReadable_read sr) nm = Some r)"
    if "signal_read A None = [(signal_name A, r)]" for r
  proof -
    have r: "renamed = [(nm, r)]"
      by (simp add: renamed_def n that rename_eq)
    have "dict_get (StandardReadable_read sr) nm = Some r"
      if "nm \<notin> set (dict_keys (readable_read B))"
    proof -
      from that have "dict_get (readable_read B) nm = None"
        by (simp add: dict_get_def dict_keys_def map_of_eq_None_iff)
      then show ?thesis using g [of nm] by (simp add: r dict_get_def)
    qed
    with r show ?thesis by simp
  qed
  from n m g p show ?thesis
    unfolding Let_def sr_def [symmetric] renamed_def [symmetric] by blast
qed

theorem read_primary_and_child_witness:
  "distinct (dict_keys [(''m-b'', 2::nat)]) \<and>
   StandardReadable_read (StandardReadable_init ''pre'' ''m''
     (Some \<lparr>signal_name = ''m-a'', signal_read = (\<lambda>c. [(''m-a'', 1::nat)]),
            signal_describe = [(''m-a'', ''float'')]\<rparr>)
     [\<lparr>readable_read = [(''m-b'', 2)], readable_describe = [(''m-b'', ''int'')]\<rparr>] [] [])
   = [(''m'', 1), (''m-b'', 2)]"
proof -
  have d: "distinct (dict_keys (readable_read
      \<lparr>readable_read = [(''m-b'', 2::nat)], readable_describe = [(''m-b'', ''int'')]\<rparr>))"
    by (simp add: dict_keys_def)
  show ?thesis
    using read_primary_and_child [OF d, of "''pre''" "''m''"
        "\<lparr>signal_name = ''m-a'', signal_read = (\<lambda>c. [(''m-a'', 1::nat)]),
            signal_describe = [(''m-a'', ''float'')]\<rparr>"]
    by (simp add: Let_def merge_gathered_dicts_def dict_update_def ReadableRenamer_rename_def
        dict_values_def dict_keys_def)
qed

section \<open>Callbacks of a status\<close>

lemma add_callbacks_pending:
  "task self = TaskPending \<Longrightarrow>
   add_callbacks cbs self = self\<lparr>callbacks := callbacks self @ cbs\<rparr>"
proof (induction cbs arbitrary: self)
  case Nil
  show ?case by (simp add: add_callbacks_def)
next
  case (Cons cb cbs)
  let ?s = "self\<lparr>callbacks := callbacks self @ [cb]\<rparr>"
  have step: "snd (add_callback self cb) = ?s"
    using Cons.prems by (simp add: add_callback_def AsyncStatus_done_def)
  have "add_callbacks (cb # cbs) self = add_callbacks cbs ?s"
    by (simp add: add_callbacks_def step)
  also have "\<dots> = ?s\<lparr>callbacks := callbacks ?s @ cbs\<rparr>"
    by (rule Cons.IH) (simp add: Cons.prems)
  finally show ?case by simp
qed

lemma add_callbacks_done:
  "Task_done (task self) \<Longrightarrow>
   add_callbacks cbs self = self\<lparr>called := called self @ cbs\<rparr>"
proof (induction cbs arbitrary: self)
  case Nil
  show ?case by (simp add: add_callbacks_def)
next
  case (Cons cb cbs)
  let ?s = "self\<lparr>called := called self @ [cb]\<rparr>"
  have step: "snd (add_callback self cb) = ?s"
    using Cons.prems by (simp add: add_callback_def AsyncStatus_done_def)
  have "add_callbacks (cb # cbs) self = add_callbacks cbs ?s"
    by (simp add: add_callbacks_def step)
  also have "\<dots> = ?s\<lparr>called := called ?s @ cbs\<rparr>"
    by (rule Cons.IH) (simp add: Cons.prems)
  finally show ?case by simp
qed

lemma call_each_called:
  "called (snd (call_each cbs self)) = called self @ upto_first_raiser cbs"
  by (induction cbs arbitrary: self) (simp_all add: Let_def split: outcome.splits)

lemma call_each_rest:
  "task (snd (call_each cbs self)) = task self
   \<and> callbacks (snd (call_each cbs self)) = callbacks self
   \<and> watchers (snd (call_each cbs self)) = watchers self"
  by (induction cbs arbitrary: self) (simp_all add: Let_def split: outcome.splits)

lemma upto_first_raiser_prefix:
  "upto_first_raiser cbs = take (length (upto_first_raiser cbs)) cbs"
  by (induction cbs) (simp_all split: outcome.splits)

lemma upto_first_raiser_index:
  "i < length cbs \<Longrightarrow>
   i < length (upto_first_raiser cbs) \<longleftrightarrow> (\<forall>j < i. cb_outcome (cbs ! j) = Returns ())"
proof (induction cbs arbitrary: i)
  case Nil
  then show ?case by simp
next
  case (Cons cb cbs)
  show ?case
  proof (cases i)
    case 0
    then show ?thesis by (simp split: outcome.splits)
  next
    case (Suc n)
    with Cons.prems have n: "n < length cbs" by simp
    show ?thesis
    proof (cases "cb_outcome cb")
      case (Returns u)
      then show ?thesis
        using Cons.IH [OF n] by (simp add: Suc All_less_Suc2)
    next
      case (Raises e)
      then have "\<not> (\<forall>j < Suc n. cb_outcome ((cb # cbs) ! j) = Returns ())"
        by (auto intro: exI [of _ 0])
      with Raises show ?thesis by (simp add: Suc)
    qed
  qed
qed

lemma upto_first_raiser_all_return:
  "\<forall>cb \<in> set cbs. cb_outcome cb = Returns () \<Longrightarrow> upto_first_raiser cbs = cbs"
  by (induction cbs) simp_all

text \<open>
  Claim C2, as the code has it. When the task has finished with a result or with an
  exception, \<^verbatim>\<open>_run_callbacks\<close> calls the callbacks registered while the task was
  pending in registration order, each once, up to and including the first one that
  raises: a callback is called exactly when no callback registered before it raises, so
  all of them are called when none raises. When the task was cancelled,
  \<^verbatim>\<open>_run_callbacks\<close> calls none of them, and nothing calls them later. A callback
  registered on a status that is done, cancelled or not, is called at once by
  \<^verbatim>\<open>add_callback\<close> itself and is not stored.
\<close>

theorem callbacks_fire_unless_cancelled:
  assumes "Task_done final"
  shows "called (lifecycle early final window late) =
           window @ (if Task_cancelled final then [] else upto_first_raiser early) @ late
         \<and> upto_first_raiser early = take (length (upto_first_raiser early)) early
         \<and> (\<forall>i < length early.
               i < length (upto_first_raiser early) \<longleftrightarrow>
               (\<forall>j < i. cb_outcome (early ! j) = Returns ()))
         \<and> ((\<forall>cb \<in> set early. cb_outcome cb = Returns ()) \<longrightarrow> upto_first_raiser early = early)
         \<and> (\<forall>self cb. AsyncStatus_done self \<longrightarrow>
               add_callback self cb = (cb_outcome cb, self\<lparr>called := called self @ [cb]\<rparr>))"
proof -
  define s1 :: "'a async_status" where "s1 = add_callbacks early (AsyncStatus_init TaskPending None)"
  define s2 where "s2 = add_callbacks window (task_finishes final s1)"
  define s3 where "s3 = snd (run_callbacks s2 (task s2))"
  have s1: "s1 = \<lparr> task = TaskPending, callbacks = early, watchers = None, called = [] \<rparr>"
    by (simp add: s1_def add_callbacks_pending AsyncStatus_init_def)
  have s2: "s2 = \<lparr> task = final, callbacks = early, watchers = None, called = window \<rparr>"
    using assms by (simp add: s2_def s1 task_finishes_def add_callbacks_done)
  have t3: "task s3 = final"
    by (simp add: s3_def s2 run_callbacks_def call_each_rest)
  have c3: "called s3 = window @ (if Task_cancelled final then [] else upto_first_raiser early)"
    by (simp add: s3_def s2 run_callbacks_def call_each_called)
  have "lifecycle early final window late = add_callbacks late s3"
    by (simp add: lifecycle_def Let_def s1_def s2_def s3_def)
  also have "\<dots> = s3\<lparr>called := called s3 @ late\<rparr>"
    using assms by (intro add_callbacks_done) (simp add: t3)
  finally have "called (lifecycle early final window late) =
      window @ (if Task_cancelled final then [] else upto_first_raiser early) @ late"
    by (simp add: c3)
  moreover note upto_first_raiser_prefix [of early]
  moreover have "\<forall>i < length early.
      i < length (upto_first_raiser early) \<longleftrightarrow> (\<forall>j < i. cb_outcome (early ! j) = Returns ())"
    using upto_first_raiser_index [of _ early] by blast
  moreover have "(\<forall>cb \<in> set early. cb_outcome cb = Returns ()) \<longrightarrow> upto_first_raiser early = early"
    using upto_first_raiser_all_return [of early] by blast
  moreover have "\<forall>self cb. AsyncStatus_done self \<longrightarrow>
      add_callback self cb = (cb_outcome cb, self\<lparr>called := called self @ [cb]\<rparr>)"
    by (simp add: add_callback_def)
  ultimately show ?thesis by blast
qed

theorem callbacks_fire_unless_cancelled_witness:
  "Task_done (TaskException ValueError :: unit task) \<and>
   called (lifecycle
      [\<lparr>cb_id = 1, cb_outcome = Returns ()\<rparr>, \<lparr>cb_id = 2, cb_outcome = Raises TypeError\<rparr>,
       \<lparr>cb_id = 3, cb_outcome = Returns ()\<rparr>]
      (TaskException ValueError :: unit task) []
      [\<lparr>cb_id = 4, cb_outcome = Returns ()\<rparr>])
   = [\<lparr>cb_id = 1, cb_outcome = Returns ()\<rparr>, \<lparr>cb_id = 2, cb_outcome = Raises TypeError\<rparr>,
      \<lparr>cb_id = 4, cb_outcome = Returns ()\<rparr>]"
proof -
  have d: "Task_done (TaskException ValueError :: unit task)" by simp
  show ?thesis
    using callbacks_fire_unless_cancelled [OF d,
        of "[\<lparr>cb_id = 1, cb_outcome = Returns ()\<rparr>, \<lparr>cb_id = 2, cb_outcome = Raises TypeError\<rparr>,
             \<lparr>cb_id = 3, cb_outcome = Returns ()\<rparr>]"
           "[]" "[\<lparr>cb_id = 4, cb_outcome = Returns ()\<rparr>]", THEN conjunct1]
    by simp
qed

text \<open>
  Claim C2 as stated fails for a cancelled task: the one callback registered while the
  task was pending is never called.
\<close>

theorem callback_lost_on_cancel:
  "called (lifecycle [\<lparr>cb_id = 1, cb_outcome = Returns ()\<rparr>] (TaskCancelled :: unit task) [] []) = []
   \<and> Task_done (TaskCancelled :: unit task)"
  by (simp add: lifecycle_def add_callbacks_def add_callback_def AsyncStatus_done_def
      AsyncStatus_init_def task_finishes_def run_callbacks_def)

section \<open>The success accessor\<close>

text \<open>
  Claim C3. \<^verbatim>\<open>success\<close> on a status that is not done raises \<^verbatim>\<open>AssertionError\<close>. On a
  status that is done it returns true exactly when the task finished with a result; it
  returns false, and raises nothing, when the task finished with an \<^verbatim>\<open>Exception\<close> and
  when it was cancelled.
\<close>

theorem success_accessor:
  "(\<not> AsyncStatus_done self \<longrightarrow> AsyncStatus_success self = Raises AssertionError)
   \<and> (AsyncStatus_done self \<longrightarrow>
        (AsyncStatus_success self = Returns True \<longleftrightarrow> (\<exists>v. task self = TaskResult v)))
   \<and> (\<forall>e. task self = TaskException e \<and> is_Exception e \<longrightarrow>
          AsyncStatus_success self = Returns False)
   \<and> (task self = TaskCancelled \<longrightarrow> AsyncStatus_success self = Returns False)"
  by (cases "task self") (auto simp: AsyncStatus_success_def AsyncStatus_done_def)

theorem success_accessor_witness:
  "AsyncStatus_success (AsyncStatus_init (TaskPending :: nat task) None) = Raises AssertionError
   \<and> AsyncStatus_success (AsyncStatus_init (TaskResult (5::nat)) None) = Returns True
   \<and> AsyncStatus_success (AsyncStatus_init (TaskException ValueError :: nat task) None) = Returns False
   \<and> AsyncStatus_success (AsyncStatus_init (TaskCancelled :: nat task) None) = Returns False"
  using success_accessor [of "AsyncStatus_init (TaskPending :: nat task) None"]
    success_accessor [of "AsyncStatus_init (TaskResult (5::nat)) None"]
    success_accessor [of "AsyncStatus_init (TaskException ValueError :: nat task) None"]
    success_accessor [of "AsyncStatus_init (TaskCancelled :: nat task) None"]
  by (simp add: AsyncStatus_init_def AsyncStatus_done_def)

section \<open>Setting a name\<close>

text \<open>A \<^verbatim>\<open>StandardReadable\<close> keeps its first non-empty name and ignores an empty one.\<close>

lemma StandardReadable_set_name_once:
  "n \<noteq> [] \<Longrightarrow> set_name (ReadableDevice n attrs) new_name = ReadableDevice n attrs"
  by simp

lemma StandardReadable_set_name_empty:
  "set_name (ReadableDevice n attrs) [] = ReadableDevice n attrs"
  by simp

lemma StandardReadable_set_name_twice:
  "a \<noteq> [] \<Longrightarrow>
   set_name (set_name (ReadableDevice n attrs) a) b = set_name (ReadableDevice n attrs) a"
  by simp

text \<open>
  Claim C4 holds for \<^verbatim>\<open>StandardReadable\<close> and fails for \<^verbatim>\<open>Signal\<close>, whose \<^verbatim>\<open>set_name\<close>
  assigns without a guard: a second, different name replaces the first, and the empty name
  erases it.
\<close>

theorem Signal_set_name_overwrites:
  "device_name (set_name (set_name (SignalDevice []) ''a'') ''b'') = ''b''
   \<and> device_name (set_name (set_name (SignalDevice []) ''a'') []) = []
   \<and> device_name (set_name (set_name (ReadableDevice [] []) ''a'') ''b'') = ''a''"
  by simp

section \<open>The report of a cancelled connection\<close>

lemma collect_lines_append:
  "\<forall>(k, r) \<in> set pre. connect_failed r \<or> contributes_nothing r \<Longrightarrow>
   collect_lines (pre @ rest) lines = collect_lines rest (lines @ failure_report pre)"
proof (induction pre arbitrary: lines)
  case Nil
  show ?case by (simp add: failure_report_def)
next
  case (Cons kr pre)
  obtain k r where kr: "kr = (k, r)" by (cases kr)
  from Cons.prems have ok: "connect_failed r \<or> contributes_nothing r"
    and pre: "\<forall>(k, r) \<in> set pre. connect_failed r \<or> contributes_nothing r"
    by (simp_all add: kr)
  from ok show ?case
  proof
    assume "connect_failed r"
    then obtain ls where r: "r = Some (Raises (NotConnected ls))"
      by (elim connect_failed.elims) simp
    show ?thesis
    proof (cases "length ls = 1")
      case True
      then obtain l where ls: "ls = [l]" by (cases ls) simp_all
      show ?thesis
        by (simp add: kr r ls Cons.IH [OF pre] failure_report_def report_entry_def)
    next
      case False
      then have "report_entry k ls = (k @ '':'') # map (\<lambda>l. ''  '' @ l) ls"
        by (cases ls rule: list.exhaust [case_names Nil Cons])
           (simp_all add: report_entry_def split: list.splits)
      moreover have "((@) ''  '') = (\<lambda>l. CHR '' '' # CHR '' '' # l)"
        by (rule ext) simp
      ultimately show ?thesis using False
        by (simp add: kr r Cons.IH [OF pre] failure_report_def)
    qed
  next
    assume "contributes_nothing r"
    then obtain u where r: "r = Some (Returns u)"
      by (elim contributes_nothing.elims) simp
    show ?thesis
      by (simp add: kr r Cons.IH [OF pre] failure_report_def)
  qed
qed

lemma collect_lines_escape:
  "\<not> connect_failed (Some (Raises e)) \<Longrightarrow>
   collect_lines ((k, Some (Raises e)) # rest) lines = Some (Raises e)"
  by (cases e) simp_all

lemma failure_report_filter:
  "failure_report settled =
     concat (map child_report (filter (\<lambda>(k, r). connect_failed r) settled))"
proof (induction settled)
  case Nil
  show ?case by (simp add: failure_report_def)
next
  case (Cons kr settled)
  obtain k r where kr: "kr = (k, r)" by (cases kr)
  have "\<not> connect_failed r \<Longrightarrow> child_report (k, r) = []"
    by (cases "(k, r)" rule: child_report.cases) simp_all
  with Cons.IH show ?case
    by (simp add: failure_report_def kr)
qed

lemma wait_for_connection_cancelled:
  "asyncio_wait coros (Some c) = Some (Raises CancelledError) \<Longrightarrow>
   wait_for_connection coros (Some c) =
     collect_lines (map (\<lambda>(k, t). (k, await_cancelled (Some c) t)) coros) []"
  by (simp add: wait_for_connection_def)

text \<open>
  The report that the code builds. When \<^verbatim>\<open>wait_for_connection\<close> is cancelled while it
  waits and every child's task, cancelled and awaited, either returns or raises
  \<^verbatim>\<open>NotConnected\<close>, it raises one \<^verbatim>\<open>NotConnected\<close> whose lines are the entries of exactly
  the children that raised \<^verbatim>\<open>NotConnected\<close>, in the insertion order of the children
  whatever the order in which they finished: \<^verbatim>\<open>name: message\<close> for a failure of one line,
  otherwise \<^verbatim>\<open>name:\<close> followed by the child's lines, each indented by two spaces. A child
  that returned contributes nothing. The loop ends early at the first child, in insertion
  order, whose task ends with any other exception.
\<close>

lemma cancelled_connection_report:
  assumes "asyncio_wait coros (Some c) = Some (Raises CancelledError)"
  shows "let settled = map (\<lambda>(k, t). (k, await_cancelled (Some c) t)) coros in
     ((\<forall>(k, r) \<in> set settled. connect_failed r \<or> contributes_nothing r) \<longrightarrow>
        wait_for_connection coros (Some c) = Some (Raises (NotConnected (failure_report settled)))
        \<and> failure_report settled =
            concat (map child_report (filter (\<lambda>(k, r). connect_failed r) settled)))
     \<and> (\<forall>pre k e post.
          settled = pre @ (k, Some (Raises e)) # post
          \<and> (\<forall>(k, r) \<in> set pre. connect_failed r \<or> contributes_nothing r)
          \<and> \<not> connect_failed (Some (Raises e)) \<longrightarrow>
          wait_for_connection coros (Some c) = Some (Raises e))"
proof -
  define settled where "settled = map (\<lambda>(k, t). (k, await_cancelled (Some c) t)) coros"
  have w: "wait_for_connection coros (Some c) = collect_lines settled []"
    unfolding settled_def by (rule wait_for_connection_cancelled [OF assms])
  have a: "wait_for_connection coros (Some c) = Some (Raises (NotConnected (failure_report settled)))"
    if "\<forall>(k, r) \<in> set settled. connect_failed r \<or> contributes_nothing r"
    using collect_lines_append [OF that, of "[]" "[]"] by (simp add: w)
  have b: "wait_for_connection coros (Some c) = Some (Raises e)"
    if "settled = pre @ (k, Some (Raises e)) # post"
      and "\<forall>(k, r) \<in> set pre. connect_failed r \<or> contributes_nothing r"
      and "\<not> connect_failed (Some (Raises e))" for pre k e post
    using collect_lines_append [OF that(2), of "(k, Some (Raises e)) # post" "[]"]
      collect_lines_escape [OF that(3)]
    by (simp add: w that(1))
  from a b failure_report_filter [of settled] show ?thesis
    unfolding Let_def settled_def [symmetric] by blast
qed

lemma cancelled_connection_report_example:
  "wait_for_connection
     [(''x'', \<lparr>completes_at = None, completion = Returns (),
              on_cancel = Some (Raises (NotConnected [''ca://X'']))\<rparr>),
      (''y'', \<lparr>completes_at = Some 1, completion = Returns (), on_cancel = None\<rparr>),
      (''z'', \<lparr>completes_at = Some 0, completion = Raises (NotConnected [''a: ca://A'', ''b: ca://B'']),
              on_cancel = None\<rparr>)]
     (Some 2)
   = Some (Raises (NotConnected [''x: ca://X'', ''z:'', ''  a: ca://A'', ''  b: ca://B'']))"
proof -
  let ?coros = "[(''x'', \<lparr>completes_at = None, completion = Returns (),
              on_cancel = Some (Raises (NotConnected [''ca://X'']))\<rparr>),
      (''y'', \<lparr>completes_at = Some 1, completion = Returns (), on_cancel = None\<rparr>),
      (''z'', \<lparr>completes_at = Some 0, completion = Raises (NotConnected [''a: ca://A'', ''b: ca://B'']),
              on_cancel = None\<rparr>)]"
  have h: "asyncio_wait ?coros (Some 2) = Some (Raises CancelledError)"
    by (simp add: asyncio_wait_def done_by_def)
  have s: "map (\<lambda>(k, t). (k, await_cancelled (Some 2) t)) ?coros =
      [(''x'', Some (Raises (NotConnected [''ca://X'']))), (''y'', Some (Returns ())),
       (''z'', Some (Raises (NotConnected [''a: ca://A'', ''b: ca://B''])))]"
    by (simp add: await_cancelled_def done_by_def)
  show ?thesis
    using cancelled_connection_report [OF h, unfolded Let_def s, THEN conjunct1]
    by (simp add: failure_report_def report_entry_def)
qed

text \<open>
  Claim C1 fails on the code for a child that is cancelled and raises no \<^verbatim>\<open>NotConnected\<close>.
  The orchestrator is cancelled while its one child is pending, and the child's task ends
  cancelled. The claim, like the docstring of \<^verbatim>\<open>wait_for_connection\<close> ("Raises
  \<^verbatim>\<open>NotConnected\<close> if cancelled"), has the orchestrator raise a \<^verbatim>\<open>NotConnected\<close> to which
  this child contributes nothing, here the report without lines. In the code \<^verbatim>\<open>await t\<close>
  raises the child's \<^verbatim>\<open>CancelledError\<close>, which \<^verbatim>\<open>except NotConnected\<close> does not catch:
  it leaves \<^verbatim>\<open>wait_for_connection\<close>, and \<^verbatim>\<open>raise NotConnected(*lines)\<close> is not reached.
\<close>

theorem cancelled_child_escapes:
  "asyncio_wait
     [(''a'', \<lparr>completes_at = None, completion = Returns (),
              on_cancel = Some (Raises CancelledError)\<rparr>)] (Some 0)
   = Some (Raises CancelledError)
   \<and> wait_for_connection
     [(''a'', \<lparr>completes_at = None, completion = Returns (),
              on_cancel = Some (Raises CancelledError)\<rparr>)] (Some 0)
   = Some (Raises CancelledError)
   \<and> failure_report [(''a'', Some (Raises CancelledError))] = []
   \<and> wait_for_connection
     [(''a'', \<lparr>completes_at = None, completion = Returns (),
              on_cancel = Some (Raises CancelledError)\<rparr>)] (Some 0)
   \<noteq> Some (Raises (NotConnected (failure_report [(''a'', Some (Raises CancelledError))])))"
  by (simp add: wait_for_connection_def asyncio_wait_def await_cancelled_def done_by_def
      failure_report_def)

section \<open>No children\<close>

text \<open>
  Claim C6 fails on the code: with no connect operation \<^verbatim>\<open>asyncio.wait\<close> is given an
  empty set and raises \<^verbatim>\<open>ValueError\<close>, which \<^verbatim>\<open>wait_for_connection\<close> does not catch,
  whether or not a cancellation is on its way.
\<close>

theorem wait_for_connection_no_children:
  "wait_for_connection [] cancel_at = Some (Raises ValueError)"
  by (simp add: wait_for_connection_def asyncio_wait_def)

section \<open>The subscription of \<^verbatim>\<open>observe_value\<close>\<close>

lemma yield_await_get_inv:
  "phase g \<in> {AwaitingGet, AtYield} \<Longrightarrow> observer_inv cb sig g \<Longrightarrow>
   observer_inv cb sig (yield_await_get g) \<and> phase (yield_await_get g) \<in> {AwaitingGet, AtYield}"
  by (cases "queue g") (auto simp: yield_await_get_def observer_inv_def)

lemma queue_update_inv:
  "observer_inv cb sig g \<Longrightarrow> observer_inv cb sig (g\<lparr>queue := q\<rparr>)"
  by (cases "phase g") (simp_all add: observer_inv_def)

lemma step_inv:
  assumes "observer_inv cb sig g"
  shows "observer_inv cb sig (step cb g ev)"
proof (cases ev)
  case Next
  show ?thesis
  proof (cases "phase g")
    case Created
    let ?g = "g\<lparr>queue := [], signal := subscribe_value (signal g) cb,
                 signal_calls := signal_calls g @ [SubscribeValue cb]\<rparr>"
    from assms Created have "observer_inv cb sig (?g\<lparr>phase := AwaitingGet\<rparr>)"
      by (simp add: observer_inv_def)
    moreover have "yield_await_get ?g = ?g\<lparr>phase := AwaitingGet\<rparr>"
      by (simp add: yield_await_get_def)
    ultimately show ?thesis
      by (simp add: Next Created start_def)
  next
    case AtYield
    with assms yield_await_get_inv [of g cb sig] show ?thesis
      by (simp add: Next)
  qed (use assms in \<open>simp_all add: Next\<close>)
next
  case (Notify v)
  show ?thesis
  proof (cases "phase g = AwaitingGet")
    case True
    then have "phase (g\<lparr>queue := queue g @ [v]\<rparr>) \<in> {AwaitingGet, AtYield}" by simp
    from yield_await_get_inv [OF this queue_update_inv [OF assms]] assms
    show ?thesis by (simp add: Notify True Let_def)
  next
    case False
    with queue_update_inv [OF assms] assms show ?thesis
      by (simp add: Notify Let_def)
  qed
next
  case Close
  with assms show ?thesis
    by (cases "phase g") (auto simp: observer_inv_def run_finally_def)
next
  case (Throw e)
  with assms show ?thesis
    by (cases "phase g") (auto simp: observer_inv_def run_finally_def)
qed

lemma run_inv:
  "observer_inv cb sig g \<Longrightarrow> observer_inv cb sig (run cb g evs)"
  unfolding run_def by (induction evs arbitrary: g) (simp_all add: step_inv)

lemma observe_value_inv: "observer_inv cb sig (observe_value sig)"
  by (simp add: observer_inv_def observe_value_def)

text \<open>
  Claim C7, as the code has it. Let the generator of \<^verbatim>\<open>observe_value(signal)\<close> go
  through any sequence of pulls, notifications, closings and thrown exceptions, its
  callback being new to the signal. While it is suspended it has subscribed its callback
  exactly once, has not unsubscribed it, and the signal holds it: a consumer that only
  stops pulling releases nothing. The subscription is released when the generator is
  finalised, by an exception thrown into it where it is suspended (as a cancellation of
  the waiting consumer is) or by closing it at the \<^verbatim>\<open>yield\<close>: then the \<^verbatim>\<open>finally\<close> block
  runs, the generator is closed, \<^verbatim>\<open>clear_sub\<close> has been called exactly once, and the
  signal no longer holds the callback. Whatever happens to a closed generator, it never
  calls the signal again.
\<close>

theorem observe_value_releases_subscription:
  assumes "cb \<notin> subscribers sig"
  shows "let g = run cb (observe_value sig) evs in
     (phase g = Created \<longrightarrow> signal_calls g = [])
   \<and> (phase g \<in> {AwaitingGet, AtYield} \<longrightarrow>
        signal_calls g = [SubscribeValue cb] \<and> cb \<in> subscribers (signal g)
        \<and> phase (step cb g (Throw e)) = Closed
        \<and> signal_calls (step cb g (Throw e)) = [SubscribeValue cb, ClearSub cb]
        \<and> cb \<notin> subscribers (signal (step cb g (Throw e))))
   \<and> (phase g = AtYield \<longrightarrow>
        phase (step cb g Close) = Closed
        \<and> signal_calls (step cb g Close) = [SubscribeValue cb, ClearSub cb]
        \<and> cb \<notin> subscribers (signal (step cb g Close)))
   \<and> (phase g = Closed \<longrightarrow>
        (signal_calls g = [] \<or> signal_calls g = [SubscribeValue cb, ClearSub cb])
        \<and> cb \<notin> subscribers (signal g)
        \<and> (\<forall>ev. step cb g ev = g))
   \<and> length (filter (\<lambda>c. c = ClearSub cb) (signal_calls g)) \<le> 1"
proof -
  define g where "g = run cb (observe_value sig) evs"
  have inv: "observer_inv cb sig g"
    unfolding g_def by (rule run_inv [OF observe_value_inv])
  have closed_fix: "step cb g ev = g" if "phase g = Closed" for ev
  proof (cases ev)
    case (Notify v)
    from inv that assms have "cb \<notin> subscribers (signal g)"
      by (auto simp: observer_inv_def subscribe_value_def clear_sub_def)
    then show ?thesis by (simp add: Notify)
  qed (simp_all add: that)
  from inv assms closed_fix have ?thesis if "phase g = Closed"
    unfolding Let_def g_def [symmetric] using that
    by (auto simp: observer_inv_def subscribe_value_def clear_sub_def)
  moreover from inv have ?thesis if "phase g = Created"
    unfolding Let_def g_def [symmetric] using that
    by (simp add: observer_inv_def)
  moreover from inv have ?thesis if "phase g = AwaitingGet"
    unfolding Let_def g_def [symmetric] using that
    by (simp add: observer_inv_def subscribe_value_def clear_sub_def run_finally_def)
  moreover from inv have ?thesis if "phase g = AtYield"
    unfolding Let_def g_def [symmetric] using that
    by (simp add: observer_inv_def subscribe_value_def clear_sub_def run_finally_def)
  ultimately show ?thesis
    by (cases "phase g") blast+
qed

theorem observe_value_releases_subscription_witness:
  "(7::nat) \<notin> subscribers \<lparr>subscribers = {2}\<rparr> \<and>
   phase (run (7::nat) (observe_value \<lparr>subscribers = {2}\<rparr>) [Next, Notify (10::nat)]) = AtYield \<and>
   signal_calls (step (7::nat) (run 7 (observe_value \<lparr>subscribers = {2}\<rparr>) [Next, Notify (10::nat)]) Close)
     = [SubscribeValue 7, ClearSub 7] \<and>
   subscribers (signal (step (7::nat) (run 7 (observe_value \<lparr>subscribers = {2}\<rparr>) [Next, Notify (10::nat)]) Close))
     = {2}"
proof -
  have f: "(7::nat) \<notin> subscribers \<lparr>subscribers = {2}\<rparr>" by simp
  have r: "run 7 (observe_value \<lparr>subscribers = {2::nat}\<rparr>) [Next, Notify (10::nat)] =
     \<lparr> phase = AtYield, queue = [], yielded = [10], signal = \<lparr>subscribers = {7, 2}\<rparr>,
       signal_calls = [SubscribeValue 7] \<rparr>"
    by (simp add: run_def observe_value_def start_def yield_await_get_def subscribe_value_def)
  show ?thesis
    using observe_value_releases_subscription [OF f, of "[Next, Notify (10::nat)]"]
    by (simp add: Let_def r run_finally_def clear_sub_def)
qed

text \<open>
  Claim C7 as stated fails for a consumer that stops pulling. It pulls, receives the
  value 10 and pulls no more, while the signal notifies 20: the generator stays suspended
  at its \<^verbatim>\<open>yield\<close>, \<^verbatim>\<open>clear_sub\<close> has not been called, and the signal still holds the
  callback.
\<close>

theorem stopped_pulling_keeps_subscription:
  "phase (run (7::nat) (observe_value \<lparr>subscribers = {}\<rparr>) [Next, Notify (10::nat), Notify 20])
     = AtYield
   \<and> yielded (run (7::nat) (observe_value \<lparr>subscribers = {}\<rparr>) [Next, Notify (10::nat), Notify 20])
     = [10]
   \<and> signal_calls (run (7::nat) (observe_value \<lparr>subscribers = {}\<rparr>)
        [Next, Notify (10::nat), Notify 20])
     = [SubscribeValue 7]
   \<and> subscribers (signal (run (7::nat) (observe_value \<lparr>subscribers = {}\<rparr>)
        [Next, Notify (10::nat), Notify 20]))
     = {7}"
  by (simp add: run_def observe_value_def start_def yield_await_get_def subscribe_value_def)

section \<open>Waiting for a value\<close>

text \<open>Had the local held the argument when the coroutine starts, the body would wait for
  the first value that the argument matches.\<close>

lemma async_for_match_first:
  "async_for_match m vs = (if \<exists>v \<in> set vs. m v then Some (Returns ()) else None)"
  by (induction vs) auto

lemma wait_for_value_body_bound:
  "wait_for_value_body (Some m) vs = async_for_match (matches m) vs"
proof (cases m)
  case (Callable f)
  have "matches (Callable f) = f" by (rule ext) simp
  then show ?thesis
    by (simp add: Callable wait_for_value_body_def load_local_def)
next
  case (NotCallable x)
  have "matches (NotCallable x) = (\<lambda>value. value = x)" by (rule ext) simp
  then show ?thesis
    by (simp add: NotCallable wait_for_value_body_def load_local_def)
qed

text \<open>
  Claim C5 fails on the code: \<^verbatim>\<open>wait_for_value\<close> never completes successfully. For
  every \<^verbatim>\<open>match\<close>, callable or not, whatever values the signal sends, it raises
  \<^verbatim>\<open>UnboundLocalError\<close> as soon as \<^verbatim>\<open>_wait_for_value\<close> runs, because the first
  statement of that coroutine reads its unassigned local \<^verbatim>\<open>match\<close>; with a timeout that
  is not positive the coroutine does not run at all. In particular a wait for the value 1,
  with a timeout of one second, on a signal that sends 0 and then 1 does not complete,
  though the second value matches.
\<close>

theorem wait_for_value_unbound_local:
  "wait_for_value match_arg timeout vs \<noteq> Some (Returns ())
   \<and> ((\<forall>t. timeout = Some t \<longrightarrow> 0 < t) \<longrightarrow>
        wait_for_value match_arg timeout vs = Some (Raises UnboundLocalError))
   \<and> wait_for_value (NotCallable (1::nat)) (Some 1000) [0, 1] = Some (Raises UnboundLocalError)
   \<and> async_for_match (matches (NotCallable (1::nat))) [0, 1] = Some (Returns ())"
  by (simp add: wait_for_value_def wait_for_value_inner_def wait_for_value_body_def
      load_local_def split: option.splits)

theorem wait_for_value_unbound_local_witness:
  "wait_for_value (Callable (\<lambda>v. (45::nat) \<le> v)) (Some 1000) [10, 30, 50]
     = Some (Raises UnboundLocalError)
   \<and> async_for_match (matches (Callable (\<lambda>v. (45::nat) \<le> v))) [10, 30, 50] = Some (Returns ())"
  using wait_for_value_unbound_local [of "Callable (\<lambda>v. (45::nat) \<le> v)" "Some 1000" "[10, 30, 50]"]
  by simp

section \<open>Signals in sets\<close>

lemma Signal_hash_small: "py_id x < hash_modulus \<Longrightarrow> Signal_hash x = py_id x"
  by (simp add: Signal_hash_def hash_int_def)

lemma Signal_same_id:
  "isinstance_Signal e \<Longrightarrow> isinstance_Signal x \<Longrightarrow> py_id e = py_id x \<longleftrightarrow> e = x"
  by (cases e; cases x) simp_all

lemma set_add_by_identity:
  assumes "\<forall>e \<in> set (x # es). isinstance_Signal e \<and> py_id e < hash_modulus"
  shows "set_add es x = Returns (if x \<in> set es then es else es @ [x])"
  using assms
proof (induction es)
  case Nil
  show ?case by simp
next
  case (Cons e es)
  then have e: "isinstance_Signal e" "py_id e < hash_modulus"
    and x: "isinstance_Signal x" "py_id x < hash_modulus"
    and rest: "\<forall>e \<in> set (x # es). isinstance_Signal e \<and> py_id e < hash_modulus"
    by simp_all
  have h: "Signal_hash e = Signal_hash x \<longleftrightarrow> e = x"
    using e x by (simp add: Signal_hash_small Signal_same_id)
  show ?case
    using Cons.IH [OF rest] by (auto simp: h)
qed

lemma set_add_all_by_identity:
  assumes "\<forall>e \<in> set s \<union> set xs. isinstance_Signal e \<and> py_id e < hash_modulus"
    and "distinct s"
  shows "\<exists>stored. set_add_all s xs = Returns stored \<and> set stored = set s \<union> set xs
           \<and> distinct stored"
  using assms
proof (induction xs arbitrary: s)
  case Nil
  then show ?case by simp
next
  case (Cons x xs)
  let ?s' = "if x \<in> set s then s else s @ [x]"
  from Cons.prems(1) have "\<forall>e \<in> set (x # s). isinstance_Signal e \<and> py_id e < hash_modulus"
    by simp
  then have add: "set_add s x = Returns ?s'"
    by (rule set_add_by_identity)
  from Cons.prems have "\<forall>e \<in> set ?s' \<union> set xs. isinstance_Signal e \<and> py_id e < hash_modulus"
    and "distinct ?s'"
    by auto
  from Cons.IH [OF this] obtain stored where
    "set_add_all ?s' xs = Returns stored" "set stored = set ?s' \<union> set xs" "distinct stored"
    by blast
  with add show ?case by auto
qed

lemma set_of_signals_by_identity:
  assumes "\<forall>e \<in> set xs. isinstance_Signal e \<and> py_id e < hash_modulus"
  shows "\<exists>stored. set_of_signals xs = Returns stored \<and> set stored = set xs \<and> distinct stored"
  using set_add_all_by_identity [of "[]" xs] assms
  by (simp add: set_of_signals_def)

text \<open>
  The bound on the identities is what makes the hash of an identity the identity itself.
  Two natural numbers that differ by the modulus have the same hash, and a set would
  compare two such signals with \<^verbatim>\<open>__eq__\<close>; the addresses that CPython uses as
  identities stay below the modulus.
\<close>

lemma set_add_equal_hash_compares:
  "set_of_signals [SignalObj 3, SignalObj (3 + hash_modulus)] = Raises TypeError"
proof -
  have "0 < hash_modulus" by (simp add: hash_modulus_def)
  then show ?thesis
    by (simp add: set_of_signals_def Signal_hash_def hash_int_def Signal_compare_def fail_def)
qed

text \<open>
  Claim C10. The hash of a signal is the hash of its identity, and computing it raises
  nothing. Each of the six comparison methods raises \<^verbatim>\<open>TypeError\<close> when the other
  operand is a signal and returns \<^verbatim>\<open>NotImplemented\<close> when it is not. Signals whose
  identities are below the modulus of the integer hash, as the addresses of objects are,
  go into a set by identity: no insertion raises, and the set holds each signal once.
\<close>

theorem Signal_hash_and_compare:
  "Signal_hash s = hash_int (py_id s)
   \<and> (isinstance_Signal other \<longrightarrow> Signal_compare op s other = Raises TypeError)
   \<and> (\<not> isinstance_Signal other \<longrightarrow> Signal_compare op s other = Returns NotImplemented)
   \<and> ((\<forall>e \<in> set sigs. isinstance_Signal e \<and> py_id e < hash_modulus) \<longrightarrow>
        (\<exists>stored. set_of_signals sigs = Returns stored \<and> set stored = set sigs
           \<and> distinct stored))"
  using set_of_signals_by_identity [of sigs]
  by (simp add: Signal_hash_def Signal_compare_def fail_def)

theorem Signal_hash_and_compare_witness:
  "Signal_compare Eq (SignalObj 140) (SignalObj 172) = Raises TypeError
   \<and> Signal_compare Lt (SignalObj 140) (NonSignal 172) = Returns NotImplemented
   \<and> Signal_hash (SignalObj 140) = 140
   \<and> set_of_signals [SignalObj 140, SignalObj 172, SignalObj 140]
       = Returns [SignalObj 140, SignalObj 172]"
proof -
  have h: "Signal_hash (SignalObj 140) = 140" "Signal_hash (SignalObj 172) = 172"
    by (simp_all add: Signal_hash_def hash_int_def hash_modulus_def)
  have s: "set_of_signals [SignalObj 140, SignalObj 172, SignalObj 140]
       = Returns [SignalObj 140, SignalObj 172]"
    by (simp add: h set_of_signals_def)
  show ?thesis
    using Signal_hash_and_compare [of "SignalObj 140" "SignalObj 172" Eq
        "[SignalObj 140, SignalObj 172, SignalObj 140]"]
      Signal_hash_and_compare [of "SignalObj 140" "NonSignal 172" Lt "[]"]
    by (simp add: h s)
qed

end
